theory Spec2Isabelle
  imports Complex_Main "HOL-Library.AList" "HOL-Library.Char_ord" "HOL-Library.List_Lexorder"
    "HOL-Library.Multiset"
begin

section \<open>Exceptions\<close>

text \<open>
  The exceptions the modelled code can meet. A Python call that may raise returns
  \<open>exn + 'a\<close>: \<open>Inl e\<close> is the exception \<open>e\<close> reaching the caller, \<open>Inr v\<close> the value
  returned.
\<close>

datatype exn =
  HTTPError | TimeoutError | JSONDecodeError | OSError | AttributeError | TypeError | OverflowError

section \<open>Shape records\<close>

text \<open>
  A shape is one element of the \<^verbatim>\<open>data\<close> array of the upstream \<^verbatim>\<open>/shapes\<close> response: a
  dictionary with an \<^verbatim>\<open>id\<close> string and an \<^verbatim>\<open>attributes\<close> dictionary that holds the encoded
  \<^verbatim>\<open>polyline\<close> string. The code reads both with \<^verbatim>\<open>.get\<close> and a default, so either key may
  be absent: an absent key is \<open>None\<close>. A dictionary is an association list in insertion
  order; \<^verbatim>\<open>d[k] = v\<close> is \<open>AList.update\<close> (replace in place, or append). Polylines are ASCII,
  so \<^verbatim>\<open>len\<close> is \<open>length\<close>. The other keys of an upstream record (\<^verbatim>\<open>type\<close>, \<^verbatim>\<open>links\<close>,
  \<^verbatim>\<open>relationships\<close>) are neither read nor written by the code and are left out. The values
  are typed as the specification's ShapeRecord has them: ids, polylines and route ids are
  strings.
\<close>

record shape =
  sid :: "string option"
  attributes :: "(string \<times> string) list option"

text \<open>\<^verbatim>\<open>shape.get("id", "")\<close>\<close>

definition get_id :: "shape \<Rightarrow> string" where
  "get_id s = (case sid s of None \<Rightarrow> [] | Some i \<Rightarrow> i)"

text \<open>\<^verbatim>\<open>shape.get("attributes", {}).get("polyline", "")\<close>\<close>

definition get_polyline :: "shape \<Rightarrow> string" where
  "get_polyline s =
     (case attributes s of
        None \<Rightarrow> []
      | Some a \<Rightarrow> (case map_of a ''polyline'' of None \<Rightarrow> [] | Some p \<Rightarrow> p))"

text \<open>\<^verbatim>\<open>str.startswith\<close>\<close>

fun startswith :: "string \<Rightarrow> string \<Rightarrow> bool" where
  "startswith s [] = True"
| "startswith [] (p # ps) = False"
| "startswith (c # cs) (p # ps) = (c = p \<and> startswith cs ps)"

text \<open>
  \<^verbatim>\<open>s.replace(old, "")\<close> for a non-empty \<^verbatim>\<open>old\<close>: every non-overlapping occurrence of
  \<^verbatim>\<open>old\<close>, found from the left, is removed (not only a leading one).
\<close>

function replace_empty :: "string \<Rightarrow> string \<Rightarrow> string" where
  "replace_empty old [] = []"
| "replace_empty old (c # cs) =
     (if old \<noteq> [] \<and> startswith (c # cs) old
      then replace_empty old (drop (length old) (c # cs))
      else c # replace_empty old cs)"
  by pat_completeness auto
termination
  by (relation "measure (\<lambda>(old, s). length s)") (auto simp: neq_Nil_conv)

definition is_canonical :: "shape \<Rightarrow> bool" where
  "is_canonical s = startswith (get_id s) ''canonical-''"

text \<open>
  The two deduplication loops of \<^verbatim>\<open>get_shapes_for_route\<close> (lines 347-354 and 398-411):
  \<^verbatim>\<open>
  filtered = []; seen_ids = set()
  for shape in shapes:
      k = key(shape)
      if k not in seen_ids:
          filtered.append(shape); seen_ids.add(k)
  \<close>
\<close>

fun dedup_loop :: "(shape \<Rightarrow> string) \<Rightarrow> shape list \<Rightarrow> shape list \<Rightarrow> string set \<Rightarrow> shape list" where
  "dedup_loop key [] filtered seen_ids = filtered"
| "dedup_loop key (s # ss) filtered seen_ids =
     (if key s \<notin> seen_ids
      then dedup_loop key ss (filtered @ [s]) (insert (key s) seen_ids)
      else dedup_loop key ss filtered seen_ids)"

text \<open>
  The specification's words for the same step, "drop later occurrences of an id already
  seen (stable, first-seen-wins)": the first record is kept, and the records that share
  its key are dropped from the rest.
\<close>

fun first_seen :: "(shape \<Rightarrow> string) \<Rightarrow> shape list \<Rightarrow> shape list" where
  "first_seen key [] = []"
| "first_seen key (s # ss) = s # first_seen key (filter (\<lambda>t. key t \<noteq> key s) ss)"

text \<open>The key of the final deduplication (lines 401-408).\<close>

definition dedup_id :: "shape \<Rightarrow> string" where
  "dedup_id s =
     (if startswith (get_id s) ''canonical-'' then replace_empty ''canonical-'' (get_id s)
      else get_id s)"

text \<open>
  Stamping the route id (lines 361-364 and 461-464):
  \<^verbatim>\<open>
  if "attributes" not in shape: shape["attributes"] = {}
  shape["attributes"]["_route_id"] = route_id
  \<close>
\<close>

definition stamp :: "string \<Rightarrow> shape \<Rightarrow> shape" where
  "stamp route_id s =
     s\<lparr>attributes :=
         Some (AList.update ''_route_id'' route_id
                 (case attributes s of None \<Rightarrow> [] | Some a \<Rightarrow> a))\<rparr>"

text \<open>\<^verbatim>\<open>shape.get("attributes", {}).get(k)\<close>, how a reader of the result looks an attribute up.\<close>

definition get_attribute :: "shape \<Rightarrow> string \<Rightarrow> string option" where
  "get_attribute s k = (case attributes s of None \<Rightarrow> None | Some a \<Rightarrow> map_of a k)"

text \<open>
  The specification's words for the stamp, "stamp \<^verbatim>\<open>routeId\<close> into each surviving record's
  attributes": the record \<open>r\<close> is the record \<open>s\<close> with the route id under \<^verbatim>\<open>_route_id\<close>, its id
  and its other attributes as they were.
\<close>

definition stamped_from :: "string \<Rightarrow> shape \<Rightarrow> shape \<Rightarrow> bool" where
  "stamped_from route_id s r \<longleftrightarrow>
     sid r = sid s \<and>
     get_attribute r ''_route_id'' = Some route_id \<and>
     (\<forall>k. k \<noteq> ''_route_id'' \<longrightarrow> get_attribute r k = get_attribute s k)"

text \<open>
  \<^verbatim>\<open>shapes_with_length.sort(key=lambda x: x[0], reverse=True)\<close>: Python's sort is stable,
  also with \<^verbatim>\<open>reverse=True\<close> (equal keys keep their original order). \<open>sort_key\<close> is a
  stable insertion sort, so sorting ascending on the negated length is the same order.
\<close>

definition sort_desc :: "(int \<times> shape) list \<Rightarrow> (int \<times> shape) list" where
  "sort_desc xs = sort_key (\<lambda>x. - fst x) xs"

text \<open>Lines 369-393: the ranking by longest polyline.\<close>

definition longest_fallback :: "bool \<Rightarrow> shape list \<Rightarrow> shape list \<Rightarrow> shape list" where
  "longest_fallback is_red_line all_shapes canonical_shapes =
     (if (length canonical_shapes > 2 \<and> \<not> is_red_line) \<or> canonical_shapes = [] then
        let shapes_with_length =
              map (\<lambda>s. (int (length (get_polyline s)), s))
                (filter (\<lambda>s. get_polyline s \<noteq> []) all_shapes)
        in if shapes_with_length \<noteq> [] then
             let shapes_with_length = sort_desc shapes_with_length
             in if canonical_shapes \<noteq> [] then
                  let canonical_ids = set (map sid canonical_shapes);
                      longest_non_canonical =
                        filter (\<lambda>s. sid s \<notin> canonical_ids) (map snd shapes_with_length)
                  in if longest_non_canonical \<noteq> []
                     then canonical_shapes @ [hd longest_non_canonical]
                     else canonical_shapes
                else
                  let max_shapes = min 2 (length shapes_with_length)
                  in map snd (take max_shapes shapes_with_length)
           else canonical_shapes
      else canonical_shapes)"

text \<open>
  Lines 419-458: the decision between branches and directions. The source computes
  \<^verbatim>\<open>(max_length - min_length) / max_length\<close> in double precision and compares it with the
  double \<^verbatim>\<open>0.15\<close>; the quotient of two integers is correctly rounded, so for lengths below
  \<^verbatim>\<open>10**15\<close> the comparison agrees with the exact one on rationals, which is what is written
  here.
\<close>

definition branch_filter :: "bool \<Rightarrow> shape list \<Rightarrow> shape list" where
  "branch_filter is_red_line canonical_shapes =
     (if length canonical_shapes > 1 then
        let shapes_with_length =
              sort_desc (map (\<lambda>s. (int (length (get_polyline s)), s)) canonical_shapes);
            lengths = map fst shapes_with_length
        in if length lengths \<ge> 2 then
             let max_length = hd lengths;
                 min_length = last lengths
             in if is_red_line then map snd (take 5 shapes_with_length)
                else
                  let length_diff_ratio =
                        (if max_length > 0
                         then (of_int (max_length - min_length) / of_int max_length :: rat)
                         else 0)
                  in if length_diff_ratio \<ge> 0.15 then map snd (take 3 shapes_with_length)
                     else map snd (take 1 shapes_with_length)
           else map snd shapes_with_length
      else canonical_shapes)"

text \<open>
  The filtering of \<^verbatim>\<open>get_shapes_for_route\<close> (lines 333-466), applied to the \<^verbatim>\<open>data\<close> array
  of the upstream response; the specification calls it \<^verbatim>\<open>resolve\<close>.
\<close>

definition resolve :: "string \<Rightarrow> shape list \<Rightarrow> shape list" where
  "resolve route_id all_shapes =
     (if all_shapes = [] then []
      else
        let canonical_shapes = filter is_canonical all_shapes;
            is_red_line = (route_id = ''Red'');
            canonical_shapes =
              (if canonical_shapes \<noteq> [] then dedup_loop get_id canonical_shapes [] {}
               else canonical_shapes)
        in if canonical_shapes \<noteq> [] \<and> is_red_line \<and> length canonical_shapes \<ge> 2
           then map (stamp route_id) canonical_shapes
           else
             let canonical_shapes = longest_fallback is_red_line all_shapes canonical_shapes;
                 final_shapes = dedup_loop dedup_id canonical_shapes [] {};
                 canonical_shapes =
                   (if final_shapes \<noteq> [] then final_shapes else canonical_shapes);
                 canonical_shapes = branch_filter is_red_line canonical_shapes
             in map (stamp route_id) canonical_shapes)"

text \<open>
  \<^verbatim>\<open>get_shapes_for_route\<close>: the upstream request, then the filtering. \<open>request route_id\<close>
  stands for \<^verbatim>\<open>self._make_request("/shapes", {"filter[route]": route_id})\<close> followed by
  \<^verbatim>\<open>data.get("data", [])\<close>: it raises (network failure, timeout, HTTP error status, a body
  that is not JSON) or gives the list of shapes.
\<close>

definition get_shapes_for_route :: "(string \<Rightarrow> exn + shape list) \<Rightarrow> string \<Rightarrow> exn + shape list" where
  "get_shapes_for_route request route_id =
     (case request route_id of
        Inl e \<Rightarrow> Inl e
      | Inr all_shapes \<Rightarrow> Inr (resolve route_id all_shapes))"

section \<open>Python values and JSON documents\<close>

text \<open>
  The payload of the cache is any Python value (\<^verbatim>\<open>data: Any\<close>). The values below are those
  \<^verbatim>\<open>json.dump\<close> accepts, and \<open>PObject\<close> for any other object (a set, bytes, an instance of
  a class; given by the name of its type), which \<^verbatim>\<open>json.dump\<close> refuses. A float is given by
  its \<^verbatim>\<open>repr\<close>, which identifies it, or is one of the three non-finite values. The keys
  of a dictionary are hashable values; a tuple stands for the keys \<^verbatim>\<open>json.dump\<close> refuses.
  A dictionary is an association list in insertion order.
\<close>

datatype pyfloat = Finite string | Inf | NegInf | NaN

datatype pykey =
    KStr string
  | KInt int
  | KFloat pyfloat
  | KBool bool
  | KNone
  | KTuple "pykey list"

datatype pyval =
    PNone
  | PBool bool
  | PInt int
  | PFloat pyfloat
  | PStr string
  | PList "pyval list"
  | PTuple "pyval list"
  | PDict "(pykey \<times> pyval) list"
  | PObject string

text \<open>
  A JSON document, as the text of a file denotes it: the syntax tree of the text. The
  number tokens are kept as the Python number they are read as (an integer literal as an
  \<^verbatim>\<open>int\<close>, any other as a \<^verbatim>\<open>float\<close>; \<^verbatim>\<open>NaN\<close>, \<^verbatim>\<open>Infinity\<close> and \<^verbatim>\<open>-Infinity\<close> are tokens
  that \<^verbatim>\<open>json\<close> writes and reads). An object is the list of its members in the order of
  the text, names may repeat.
\<close>

datatype json =
    JNull
  | JBool bool
  | JInt int
  | JFloat pyfloat
  | JStr string
  | JArray "json list"
  | JObject "(string \<times> json) list"

text \<open>\<^verbatim>\<open>str(n)\<close> for an integer: its decimal digits.\<close>

function str_nat :: "nat \<Rightarrow> string" where
  "str_nat n = (if n < 10 then [''0123456789'' ! n] else str_nat (n div 10) @ [''0123456789'' ! (n mod 10)])"
  by pat_completeness auto
termination
  by (relation "measure id") auto

definition str_int :: "int \<Rightarrow> string" where
  "str_int i = (if i < 0 then ''-'' @ str_nat (nat (- i)) else str_nat (nat i))"

text \<open>The token \<^verbatim>\<open>json\<close> writes for a float.\<close>

definition float_token :: "pyfloat \<Rightarrow> string" where
  "float_token f = (case f of Finite r \<Rightarrow> r | Inf \<Rightarrow> ''Infinity'' | NegInf \<Rightarrow> ''-Infinity'' | NaN \<Rightarrow> ''NaN'')"

text \<open>
  The name \<^verbatim>\<open>json.dump\<close> writes for a dictionary key: a string as it is, a float, a
  boolean, \<^verbatim>\<open>None\<close> and an integer as their JSON text; for any other key it raises
  \<^verbatim>\<open>TypeError\<close> (\<open>None\<close> here).
\<close>

fun key_string :: "pykey \<Rightarrow> string option" where
  "key_string (KStr s) = Some s"
| "key_string (KFloat f) = Some (float_token f)"
| "key_string (KBool b) = Some (if b then ''true'' else ''false'')"
| "key_string KNone = Some ''null''"
| "key_string (KInt i) = Some (str_int i)"
| "key_string (KTuple ks) = None"

text \<open>
  \<^verbatim>\<open>json.dump\<close>, up to the text: the document it writes for a value, or the \<^verbatim>\<open>TypeError\<close>
  it raises. A tuple is written as an array, as a list is; the keys of a dictionary are
  written as strings.
\<close>

fun json_dump :: "pyval \<Rightarrow> exn + json"
  and json_dump_list :: "pyval list \<Rightarrow> exn + json list"
  and json_dump_items :: "(pykey \<times> pyval) list \<Rightarrow> exn + (string \<times> json) list" where
  "json_dump PNone = Inr JNull"
| "json_dump (PBool b) = Inr (JBool b)"
| "json_dump (PInt i) = Inr (JInt i)"
| "json_dump (PFloat f) = Inr (JFloat f)"
| "json_dump (PStr s) = Inr (JStr s)"
| "json_dump (PList xs) =
     (case json_dump_list xs of Inl e \<Rightarrow> Inl e | Inr js \<Rightarrow> Inr (JArray js))"
| "json_dump (PTuple xs) =
     (case json_dump_list xs of Inl e \<Rightarrow> Inl e | Inr js \<Rightarrow> Inr (JArray js))"
| "json_dump (PDict kvs) =
     (case json_dump_items kvs of Inl e \<Rightarrow> Inl e | Inr ms \<Rightarrow> Inr (JObject ms))"
| "json_dump (PObject t) = Inl TypeError"
| "json_dump_list [] = Inr []"
| "json_dump_list (x # xs) =
     (case json_dump x of
        Inl e \<Rightarrow> Inl e
      | Inr j \<Rightarrow> (case json_dump_list xs of Inl e \<Rightarrow> Inl e | Inr js \<Rightarrow> Inr (j # js)))"
| "json_dump_items [] = Inr []"
| "json_dump_items ((k, v) # kvs) =
     (case key_string k of
        None \<Rightarrow> Inl TypeError
      | Some name \<Rightarrow>
          (case json_dump v of
             Inl e \<Rightarrow> Inl e
           | Inr j \<Rightarrow>
               (case json_dump_items kvs of Inl e \<Rightarrow> Inl e | Inr ms \<Rightarrow> Inr ((name, j) # ms))))"

text \<open>
  \<^verbatim>\<open>json.load\<close>, from the document: an array is read as a list, an object as a dictionary
  with string keys, built member by member (a repeated name keeps its first place and
  takes the last value).
\<close>

fun json_load :: "json \<Rightarrow> pyval"
  and json_load_list :: "json list \<Rightarrow> pyval list"
  and json_load_members :: "(string \<times> json) list \<Rightarrow> (pykey \<times> pyval) list \<Rightarrow> (pykey \<times> pyval) list" where
  "json_load JNull = PNone"
| "json_load (JBool b) = PBool b"
| "json_load (JInt i) = PInt i"
| "json_load (JFloat f) = PFloat f"
| "json_load (JStr s) = PStr s"
| "json_load (JArray js) = PList (json_load_list js)"
| "json_load (JObject ms) = PDict (json_load_members ms [])"
| "json_load_list [] = []"
| "json_load_list (j # js) = json_load j # json_load_list js"
| "json_load_members [] d = d"
| "json_load_members ((name, j) # ms) d =
     json_load_members ms (AList.update (KStr name) (json_load j) d)"

text \<open>
  The payloads that are read back as they were written: values made of \<^verbatim>\<open>None\<close>, booleans, integers,
  floats other than NaN, strings, lists, and dictionaries whose keys are strings (and
  distinct, as the keys of a Python dictionary are).
\<close>

fun json_plain :: "pyval \<Rightarrow> bool"
  and json_plain_list :: "pyval list \<Rightarrow> bool"
  and json_plain_items :: "(pykey \<times> pyval) list \<Rightarrow> bool" where
  "json_plain PNone = True"
| "json_plain (PBool b) = True"
| "json_plain (PInt i) = True"
| "json_plain (PFloat f) = (f \<noteq> NaN)"
| "json_plain (PStr s) = True"
| "json_plain (PList xs) = json_plain_list xs"
| "json_plain (PTuple xs) = False"
| "json_plain (PDict kvs) = (distinct (map fst kvs) \<and> json_plain_items kvs)"
| "json_plain (PObject t) = False"
| "json_plain_list [] = True"
| "json_plain_list (x # xs) = (json_plain x \<and> json_plain_list xs)"
| "json_plain_items [] = True"
| "json_plain_items ((k, v) # kvs) =
     ((case k of KStr s \<Rightarrow> True | _ \<Rightarrow> False) \<and> json_plain v \<and> json_plain_items kvs)"

section \<open>The file cache\<close>

text \<open>
  A cache file: its modification time \<^verbatim>\<open>st_mtime\<close>, in seconds since the epoch, and what
  \<^verbatim>\<open>json.load\<close> finds in it: a document, or \<open>None\<close> when opening or parsing the file
  raises (unreadable, truncated, not JSON). The store maps the path of a file, relative
  to \<^verbatim>\<open>CACHE_DIR\<close>, to the file.
\<close>

record cache_file =
  st_mtime :: rat
  content :: "json option"

type_synonym store = "string \<rightharpoonup> cache_file"

text \<open>
  What the environment does is an input of the model: whether
  \<^verbatim>\<open>CACHE_DIR.mkdir(exist_ok=True)\<close> succeeds, and \<^verbatim>\<open>datetime.fromtimestamp\<close>, which gives the
  naive local datetime of an epoch time under the time zone of the process (in
  microseconds on the local calendar), or raises when the time is out of the range of
  \<^verbatim>\<open>datetime\<close>.
\<close>

record cache_env =
  mkdir_ok :: bool
  fromtimestamp :: "rat \<Rightarrow> exn + int"

definition CACHE_EXPIRY_HOURS :: int where
  "CACHE_EXPIRY_HOURS = 168"

text \<open>\<^verbatim>\<open>timedelta(hours=h)\<close>, in microseconds.\<close>

definition timedelta_hours :: "int \<Rightarrow> int" where
  "timedelta_hours h = h * 3600 * 1000000"

text \<open>
  \<^verbatim>\<open>
  def get_cache_file_path(cache_key):
      ensure_cache_dir()
      return CACHE_DIR / f"{cache_key}.json"
  \<close>
\<close>

definition get_cache_file_path :: "cache_env \<Rightarrow> string \<Rightarrow> exn + string" where
  "get_cache_file_path env cache_key =
     (if mkdir_ok env then Inr (cache_key @ ''.json'') else Inl OSError)"

text \<open>
  \<^verbatim>\<open>
  def is_cache_valid(cache_file):
      if not cache_file.exists(): return False
      file_time = datetime.fromtimestamp(cache_file.stat().st_mtime)
      age = datetime.now() - file_time
      return age < timedelta(hours=CACHE_EXPIRY_HOURS)
  \<close>
  \<open>now\<close> is the value of \<^verbatim>\<open>datetime.now()\<close>, a naive local datetime as \<open>file_time\<close> is: the
  age is the difference of two readings of the local calendar, not the time elapsed.
\<close>

definition is_cache_valid :: "cache_env \<Rightarrow> store \<Rightarrow> int \<Rightarrow> string \<Rightarrow> exn + bool" where
  "is_cache_valid env fs now cache_file =
     (case fs cache_file of
        None \<Rightarrow> Inr False
      | Some f \<Rightarrow>
          (case fromtimestamp env (st_mtime f) of
             Inl e \<Rightarrow> Inl e
           | Inr file_time \<Rightarrow>
               (let age = now - file_time
                in Inr (age < timedelta_hours CACHE_EXPIRY_HOURS))))"

text \<open>
  The body of the \<^verbatim>\<open>try\<close> of \<^verbatim>\<open>load_from_cache\<close>: \<^verbatim>\<open>json.load\<close> raises on a file it
  cannot read, and \<^verbatim>\<open>cache_data.get("data")\<close> raises \<^verbatim>\<open>AttributeError\<close> on a value that is
  not a dictionary.
\<close>

definition load_body :: "cache_env \<Rightarrow> store \<Rightarrow> int \<Rightarrow> string \<Rightarrow> exn + pyval" where
  "load_body env fs now cache_key =
     (case get_cache_file_path env cache_key of
        Inl e \<Rightarrow> Inl e
      | Inr cache_file \<Rightarrow>
          (case is_cache_valid env fs now cache_file of
             Inl e \<Rightarrow> Inl e
           | Inr valid \<Rightarrow>
               if \<not> valid then Inr PNone
               else
                 (case fs cache_file of
                    None \<Rightarrow> Inl OSError
                  | Some f \<Rightarrow>
                      (case content f of
                         None \<Rightarrow> Inl JSONDecodeError
                       | Some doc \<Rightarrow>
                           (case json_load doc of
                              PDict cache_data \<Rightarrow>
                                (case map_of cache_data (KStr ''data'') of
                                   None \<Rightarrow> Inr PNone
                                 | Some v \<Rightarrow> Inr v)
                            | _ \<Rightarrow> Inl AttributeError)))))"

text \<open>
  \<^verbatim>\<open>load_from_cache\<close>: the \<^verbatim>\<open>except Exception\<close> clause turns every exception of the body
  into \<^verbatim>\<open>None\<close>.
\<close>

definition load_from_cache :: "cache_env \<Rightarrow> store \<Rightarrow> int \<Rightarrow> string \<Rightarrow> exn + pyval" where
  "load_from_cache env fs now cache_key =
     (case load_body env fs now cache_key of
        Inl e \<Rightarrow> Inr PNone
      | Inr v \<Rightarrow> Inr v)"

text \<open>
  \<^verbatim>\<open>save_to_cache\<close>. What the file system does with the write is an input of the model:
  opening the file fails, writing fails after the file was opened (and truncated), or
  the text is written. When \<^verbatim>\<open>json.dump\<close> raises, the file is left with the text written
  so far. Each exception is caught by the \<^verbatim>\<open>except Exception\<close> clause, which returns
  \<^verbatim>\<open>False\<close>. \<open>timestamp\<close> is \<^verbatim>\<open>datetime.now().isoformat()\<close>, \<open>mtime\<close> the epoch time of the
  write, which the file system records as the modification time.
\<close>

datatype write_outcome = OpenFails | WriteFails | Written

definition save_to_cache ::
  "cache_env \<Rightarrow> write_outcome \<Rightarrow> string \<Rightarrow> rat \<Rightarrow> store \<Rightarrow> string \<Rightarrow> pyval \<Rightarrow> (exn + bool) \<times> store" where
  "save_to_cache env io timestamp mtime fs cache_key data =
     (case get_cache_file_path env cache_key of
        Inl e \<Rightarrow> (Inr False, fs)
      | Inr cache_file \<Rightarrow>
          (let cache_data = PDict [(KStr ''timestamp'', PStr timestamp), (KStr ''data'', data)]
           in case io of
                OpenFails \<Rightarrow> (Inr False, fs)
              | WriteFails \<Rightarrow>
                  (Inr False, fs(cache_file \<mapsto> \<lparr>st_mtime = mtime, content = None\<rparr>))
              | Written \<Rightarrow>
                  (case json_dump cache_data of
                     Inl e \<Rightarrow>
                       (Inr False, fs(cache_file \<mapsto> \<lparr>st_mtime = mtime, content = None\<rparr>))
                   | Inr doc \<Rightarrow>
                       (Inr True, fs(cache_file \<mapsto> \<lparr>st_mtime = mtime, content = Some doc\<rparr>)))))"

section \<open>Aggregation over routes\<close>

text \<open>\<^verbatim>\<open>sep.join(xs)\<close>\<close>

fun join :: "string \<Rightarrow> string list \<Rightarrow> string" where
  "join sep [] = []"
| "join sep [x] = x"
| "join sep (x # y # ys) = x @ sep @ join sep (y # ys)"

text \<open>
  \<^verbatim>\<open>f"shapes_{'_'.join(sorted(route_ids))}"\<close> (lines 487 and 525). Python compares strings
  by code point, lexicographically, as the order on \<open>char list\<close> does.
\<close>

definition shapes_cache_key :: "string list \<Rightarrow> string" where
  "shapes_cache_key route_ids = ''shapes_'' @ join ''_'' (sort route_ids)"

text \<open>
  The result dictionary \<^verbatim>\<open>{"data": all_shapes, "shape_to_route": shape_to_route}\<close>. The
  keys of \<^verbatim>\<open>shape_to_route\<close> are \<^verbatim>\<open>shape.get("id")\<close>, \<^verbatim>\<open>None\<close> for a shape without id.
\<close>

record aggregate =
  data :: "shape list"
  shape_to_route :: "(string option \<times> string) list"

text \<open>The function returns the cached value as it is, or the dictionary it built.\<close>

datatype aggregate_return = Cached pyval | Computed aggregate

text \<open>The shapes and the result dictionary as Python values, as they are handed to the cache.\<close>

definition shape_value :: "shape \<Rightarrow> pyval" where
  "shape_value s =
     PDict ((case sid s of None \<Rightarrow> [] | Some i \<Rightarrow> [(KStr ''id'', PStr i)]) @
            (case attributes s of
               None \<Rightarrow> []
             | Some a \<Rightarrow> [(KStr ''attributes'', PDict (map (\<lambda>(k, v). (KStr k, PStr v)) a))]))"

definition aggregate_value :: "aggregate \<Rightarrow> pyval" where
  "aggregate_value r =
     PDict [(KStr ''data'', PList (map shape_value (data r))),
            (KStr ''shape_to_route'',
               PDict (map (\<lambda>(k, v). (case k of None \<Rightarrow> KNone | Some i \<Rightarrow> KStr i, PStr v))
                        (shape_to_route r)))]"

text \<open>
  Lines 511-517, the inner loop over the shapes of one route:
  \<^verbatim>\<open>
  for shape in filtered_shapes:
      shape_id = shape.get("id")
      if "attributes" not in shape: shape["attributes"] = {}
      shape["attributes"]["_route_id"] = route_id
      shape_to_route[shape_id] = route_id
      all_shapes.append(shape)
  \<close>
\<close>

fun add_shapes :: "string \<Rightarrow> shape list \<Rightarrow> aggregate \<Rightarrow> aggregate" where
  "add_shapes route_id [] acc = acc"
| "add_shapes route_id (s # ss) acc =
     add_shapes route_id ss
       \<lparr>data = data acc @ [stamp route_id s],
        shape_to_route = AList.update (sid s) route_id (shape_to_route acc)\<rparr>"

text \<open>
  Lines 502-517, the loop over \<^verbatim>\<open>zip(route_ids, shape_results)\<close>: a result that is an
  exception is logged and skipped.
\<close>

fun process_results :: "(string \<times> (exn + shape list)) list \<Rightarrow> aggregate \<Rightarrow> aggregate" where
  "process_results [] acc = acc"
| "process_results ((route_id, Inl e) # rest) acc = process_results rest acc"
| "process_results ((route_id, Inr filtered_shapes) # rest) acc =
     process_results rest (add_shapes route_id filtered_shapes acc)"

text \<open>
  \<^verbatim>\<open>get_all_shapes_for_routes\<close>. \<^verbatim>\<open>asyncio.gather(*shape_tasks, return_exceptions=True)\<close>
  gives, in the order of \<^verbatim>\<open>route_ids\<close>, each task's result or the exception it raised;
  the tasks share no state, so their interleaving does not show in the results. \<open>now\<close>
  is \<^verbatim>\<open>datetime.now()\<close> at the cache lookup, \<open>mtime\<close> the epoch time of the write.
\<close>

definition get_all_shapes_for_routes ::
  "(string \<Rightarrow> exn + shape list) \<Rightarrow> cache_env \<Rightarrow> write_outcome \<Rightarrow> string \<Rightarrow> int \<Rightarrow> rat \<Rightarrow> store
     \<Rightarrow> string list \<Rightarrow> (exn + aggregate_return) \<times> store" where
  "get_all_shapes_for_routes request env io timestamp now mtime fs route_ids =
     (if route_ids = [] then (Inr (Computed \<lparr>data = [], shape_to_route = []\<rparr>), fs)
      else
        let cache_key = shapes_cache_key route_ids
        in case load_from_cache env fs now cache_key of
             Inl e \<Rightarrow> (Inl e, fs)
           | Inr cached_data \<Rightarrow>
               if cached_data \<noteq> PNone then (Inr (Cached cached_data), fs)
               else
                 let shape_results = map (get_shapes_for_route request) route_ids;
                     result = process_results (zip route_ids shape_results)
                                \<lparr>data = [], shape_to_route = []\<rparr>;
                     cache_key = shapes_cache_key route_ids
                 in case save_to_cache env io timestamp mtime fs cache_key
                           (aggregate_value result) of
                      (Inl e, fs') \<Rightarrow> (Inl e, fs')
                    | (Inr saved, fs') \<Rightarrow> (Inr (Computed result), fs'))"

text \<open>
  What one pair of \<^verbatim>\<open>zip(route_ids, shape_results)\<close> adds to \<^verbatim>\<open>all_shapes\<close>: nothing for
  an exception, the stamped shapes of the route otherwise. It is used to state what the
  loop computes.
\<close>

definition contribution :: "string \<times> (exn + shape list) \<Rightarrow> shape list" where
  "contribution p = (case snd p of Inl e \<Rightarrow> [] | Inr ss \<Rightarrow> map (stamp (fst p)) ss)"

section \<open>Example data\<close>

text \<open>A shape with an id and a polyline of \<open>n\<close> characters, for the concrete instances below.\<close>

definition example_shape :: "string \<Rightarrow> nat \<Rightarrow> shape" where
  "example_shape i n = \<lparr>sid = Some i, attributes = Some [(''polyline'', replicate n CHR ''p'')]\<rparr>"

text \<open>
  An environment in which the cache directory can be created and the local time zone is
  UTC, for the concrete instances below.
\<close>

definition example_env :: cache_env where
  "example_env = \<lparr>mkdir_ok = True, fromtimestamp = (\<lambda>t. Inr \<lfloor>t * 1000000\<rfloor>)\<rparr>"

section \<open>The deduplication loop\<close>

lemma dedup_loop_first_seen:
  "dedup_loop key xs filtered seen_ids =
     filtered @ first_seen key (filter (\<lambda>s. key s \<notin> seen_ids) xs)"
proof (induction xs arbitrary: filtered seen_ids)
  case Nil
  show ?case by simp
next
  case (Cons s ss)
  have "filter (\<lambda>t. key t \<notin> insert (key s) seen_ids) ss =
        filter (\<lambda>t. key t \<noteq> key s) (filter (\<lambda>t. key t \<notin> seen_ids) ss)"
    by (auto intro: filter_cong)
  with Cons show ?case by simp
qed

lemma dedup_loop_eq: "dedup_loop key xs [] {} = first_seen key xs"
  by (simp add: dedup_loop_first_seen)

lemma set_first_seen: "set (first_seen key xs) \<subseteq> set xs"
  by (induction key xs rule: first_seen.induct) auto

lemma distinct_first_seen: "distinct (map key (first_seen key xs))"
proof (induction key xs rule: first_seen.induct)
  case (1 key)
  show ?case by simp
next
  case (2 key s ss)
  have "key s \<notin> key ` set (first_seen key (filter (\<lambda>t. key t \<noteq> key s) ss))"
    using set_first_seen [of key "filter (\<lambda>t. key t \<noteq> key s) ss"] by auto
  with 2 show ?case by simp
qed

lemma first_seen_distinct: "distinct (map key xs) \<Longrightarrow> first_seen key xs = xs"
proof (induction xs)
  case Nil
  show ?case by simp
next
  case (Cons s ss)
  from Cons.prems have "key s \<notin> key ` set ss"
    by simp
  then have "\<forall>t\<in>set ss. key t \<noteq> key s"
    by (metis image_eqI)
  then have "filter (\<lambda>t. key t \<noteq> key s) ss = ss"
    by (simp add: filter_id_conv)
  with Cons show ?case by simp
qed

lemma keys_first_seen: "key ` set (first_seen key xs) = key ` set xs"
  by (induction key xs rule: first_seen.induct) auto

lemma length_first_seen: "length (first_seen key xs) = card (key ` set xs)"
proof -
  have "card (key ` set xs) = card (set (map key (first_seen key xs)))"
    by (simp add: keys_first_seen)
  also have "\<dots> = length (map key (first_seen key xs))"
    using distinct_first_seen by (rule distinct_card)
  finally show ?thesis by simp
qed

lemma first_seen_Nil [simp]: "first_seen key xs = [] \<longleftrightarrow> xs = []"
  by (cases xs) auto

section \<open>Properties of the stamp and of the ranking\<close>

lemma get_id_stamp [simp]: "get_id (stamp route_id s) = get_id s"
  by (simp add: get_id_def stamp_def)

lemma get_polyline_stamp [simp]: "get_polyline (stamp route_id s) = get_polyline s"
  by (simp add: get_polyline_def stamp_def update_conv' split: option.splits)

lemma stamp_stamp [simp]: "stamp route_id (stamp route_id s) = stamp route_id s"
  by (simp add: stamp_def)

text \<open>What the stamp writes: the route id under \<^verbatim>\<open>_route_id\<close>, and nothing else.\<close>

lemma stamp_record:
  "stamp route_id s =
     s\<lparr>attributes := Some (AList.update ''_route_id'' route_id
                           (case attributes s of None \<Rightarrow> [] | Some a \<Rightarrow> a))\<rparr>"
  by (simp add: stamp_def)

lemma stamped_from_stamp: "stamped_from route_id s (stamp route_id s)"
  by (simp add: stamped_from_def get_attribute_def stamp_def update_conv' split: option.splits)

lemma map_sort_key: "map f (sort_key f xs) = sort (map f xs)"
proof -
  have "sort (map f xs) = map f (sort_key f xs)"
    by (rule properties_for_sort) simp_all
  then show ?thesis by simp
qed

lemma mset_sort_desc: "mset (sort_desc xs) = mset xs"
  by (simp add: sort_desc_def)

lemma ranked_perm: "mset (map snd (sort_desc (map (\<lambda>s. (f s, s)) xs))) = mset xs"
proof -
  have "mset (map snd (sort_desc (map (\<lambda>s. (f s, s)) xs))) =
        image_mset snd (mset (sort_desc (map (\<lambda>s. (f s, s)) xs)))"
    by simp
  also have "\<dots> = image_mset snd (mset (map (\<lambda>s. (f s, s)) xs))"
    by (simp only: mset_sort_desc)
  also have "\<dots> = mset xs"
    by (simp add: image_mset.compositionality comp_def)
  finally show ?thesis .
qed

lemma distinct_ranked_take:
  assumes "distinct (map key xs)"
  shows "distinct (map key (map snd (take k (sort_desc (map (\<lambda>s. (f s, s)) xs)))))"
proof -
  let ?ys = "map snd (sort_desc (map (\<lambda>s. (f s, s)) xs))"
  have "mset (map key ?ys) = mset (map key xs)"
    using ranked_perm [of f xs] by (metis mset_map)
  with assms have "distinct (map key ?ys)"
    by (metis mset_eq_imp_distinct_iff)
  then have "distinct (take k (map key ?ys))"
    by (rule distinct_take)
  then show ?thesis
    by (simp add: take_map)
qed

lemma distinct_ranked:
  assumes "distinct (map key xs)"
  shows "distinct (map key (map snd (sort_desc (map (\<lambda>s. (f s, s)) xs))))"
  using distinct_ranked_take [OF assms, of "length xs" f] by (simp add: sort_desc_def)

lemma distinct_branch_filter:
  assumes "distinct (map get_id xs)"
  shows "distinct (map get_id (branch_filter is_red_line xs))"
  unfolding branch_filter_def Let_def
  using assms distinct_ranked_take [OF assms] distinct_ranked [OF assms]
  by (simp del: map_map)

lemma distinct_map_outer:
  "distinct (map (\<lambda>s. g (f s)) xs) \<Longrightarrow> distinct (map f xs)"
  by (induction xs) auto

lemma distinct_dedup_id:
  assumes "distinct (map dedup_id ys)"
  shows "distinct (map get_id ys)"
proof -
  let ?g = "\<lambda>i. if startswith i ''canonical-'' then replace_empty ''canonical-'' i else i"
  have "map dedup_id ys = map (\<lambda>s. ?g (get_id s)) ys"
    by (simp add: dedup_id_def)
  with assms have "distinct (map (\<lambda>s. ?g (get_id s)) ys)"
    by (simp only:)
  then show ?thesis
    by (rule distinct_map_outer)
qed

text \<open>
  The function with its two deduplication loops replaced by \<open>first_seen\<close>, and the tests
  for an empty list that cannot fail removed.
\<close>

lemma resolve_unfold:
  "resolve route_id all_shapes =
     (if all_shapes = [] then []
      else if route_id = ''Red'' \<and> 2 \<le> length (first_seen get_id (filter is_canonical all_shapes))
      then map (stamp route_id) (first_seen get_id (filter is_canonical all_shapes))
      else map (stamp route_id)
             (branch_filter (route_id = ''Red'')
               (first_seen dedup_id
                 (longest_fallback (route_id = ''Red'') all_shapes
                   (first_seen get_id (filter is_canonical all_shapes))))))"
proof -
  have a: "(xs \<noteq> [] \<and> P \<and> 2 \<le> length xs) = (P \<and> 2 \<le> length xs)" for xs :: "shape list" and P
    by auto
  have b: "(if first_seen key xs \<noteq> [] then first_seen key xs else xs) = first_seen key xs"
    for key xs
    by simp
  have c: "(if xs \<noteq> [] then first_seen key xs else xs) = first_seen key xs" for key xs
    by simp
  show ?thesis
    unfolding resolve_def Let_def dedup_loop_eq a b c ..
qed

lemma distinct_resolve: "distinct (map get_id (resolve route_id all_shapes))"
proof -
  have a: "distinct (map get_id (map (stamp rid) (first_seen get_id xs)))" for xs rid
    using distinct_first_seen [of get_id xs] by (simp add: comp_def)
  have "distinct (map get_id (first_seen dedup_id xs))" for xs
    using distinct_first_seen [of dedup_id xs] by (rule distinct_dedup_id)
  then have "distinct (map get_id (branch_filter r (first_seen dedup_id xs)))" for r xs
    by (rule distinct_branch_filter)
  then have b: "distinct (map get_id (map (stamp rid) (branch_filter r (first_seen dedup_id xs))))"
    for r xs rid
    by (simp add: comp_def)
  show ?thesis
    unfolding resolve_unfold using a b by (simp del: map_map)
qed

lemma distinct_count_le_1: "distinct xs \<Longrightarrow> count_list xs x \<le> 1"
  by (induction xs) (auto simp: count_list_0_iff)

section \<open>The Red Line fast path\<close>

lemma resolve_red:
  assumes "2 \<le> length (first_seen get_id (filter is_canonical all_shapes))"
  shows "resolve ''Red'' all_shapes =
           map (stamp ''Red'') (first_seen get_id (filter is_canonical all_shapes))"
proof -
  from assms have ne: "filter is_canonical all_shapes \<noteq> []" by auto
  then have "all_shapes \<noteq> []" by auto
  with ne assms show ?thesis
    by (simp add: resolve_def dedup_loop_eq Let_def)
qed

text \<open>
  C3: for the route \<^verbatim>\<open>"Red"\<close>, when the shapes whose id starts with \<^verbatim>\<open>"canonical-"\<close>, after
  the stable first-seen-wins deduplication by exact id, are at least two, the result is
  exactly that deduplicated list, each record with \<^verbatim>\<open>"Red"\<close> written under \<^verbatim>\<open>_route_id\<close> in
  its attributes and otherwise as it was (same id, same other attributes); so the result
  has at least two records.
\<close>

theorem red_branch_preservation:
  assumes "2 \<le> length (first_seen get_id (filter is_canonical all_shapes))"
  shows "resolve ''Red'' all_shapes =
           map (\<lambda>s. s\<lparr>attributes := Some (AList.update ''_route_id'' ''Red''
                                          (case attributes s of None \<Rightarrow> [] | Some a \<Rightarrow> a))\<rparr>)
             (first_seen get_id (filter is_canonical all_shapes)) \<and>
         list_all2 (stamped_from ''Red'')
           (first_seen get_id (filter is_canonical all_shapes)) (resolve ''Red'' all_shapes) \<and>
         2 \<le> length (resolve ''Red'' all_shapes)"
proof -
  let ?c = "first_seen get_id (filter is_canonical all_shapes)"
  have r: "resolve ''Red'' all_shapes = map (stamp ''Red'') ?c"
    using assms by (rule resolve_red)
  have "list_all2 (stamped_from ''Red'') ?c (map (stamp ''Red'') ?c)"
    by (simp add: list_all2_map2 list_all2_same stamped_from_stamp)
  with r assms show ?thesis
    by (simp add: stamp_record)
qed

theorem red_branch_preservation_witness:
  "resolve ''Red''
     [example_shape ''canonical-933_0009'' 12, example_shape ''canonical-933_0009'' 7,
      example_shape ''933_0011'' 30, example_shape ''canonical-933_0010'' 11] =
   [\<lparr>sid = Some ''canonical-933_0009'',
     attributes = Some [(''polyline'', replicate 12 CHR ''p''), (''_route_id'', ''Red'')]\<rparr>,
    \<lparr>sid = Some ''canonical-933_0010'',
     attributes = Some [(''polyline'', replicate 11 CHR ''p''), (''_route_id'', ''Red'')]\<rparr>]"
proof -
  let ?xs = "[example_shape ''canonical-933_0009'' 12, example_shape ''canonical-933_0009'' 7,
      example_shape ''933_0011'' 30, example_shape ''canonical-933_0010'' 11]"
  have c: "first_seen get_id (filter is_canonical ?xs) =
      [example_shape ''canonical-933_0009'' 12, example_shape ''canonical-933_0010'' 11]"
    by (simp add: is_canonical_def get_id_def example_shape_def)
  then have h: "2 \<le> length (first_seen get_id (filter is_canonical ?xs))"
    by simp
  from red_branch_preservation [OF h] have "resolve ''Red'' ?xs =
      map (\<lambda>s. s\<lparr>attributes := Some (AList.update ''_route_id'' ''Red''
                                     (case attributes s of None \<Rightarrow> [] | Some a \<Rightarrow> a))\<rparr>)
        (first_seen get_id (filter is_canonical ?xs))"
    by (rule conjunct1)
  then show ?thesis
    unfolding c by (simp add: example_shape_def)
qed

text \<open>
  C9: for the route \<^verbatim>\<open>"Red"\<close>, when the canonical shapes of the input carry \<open>n \<ge> 2\<close>
  distinct ids, the result has exactly \<open>n\<close> records: the cap of five shapes is not applied
  on this path.
\<close>

theorem red_result_not_capped:
  assumes "card (get_id ` set (filter is_canonical all_shapes)) = n" and "2 \<le> n"
  shows "length (resolve ''Red'' all_shapes) = n"
proof -
  from assms have "2 \<le> length (first_seen get_id (filter is_canonical all_shapes))"
    by (simp add: length_first_seen)
  then have "resolve ''Red'' all_shapes =
      map (stamp ''Red'') (first_seen get_id (filter is_canonical all_shapes))"
    by (rule resolve_red)
  with assms(1) show ?thesis
    by (simp add: length_first_seen)
qed

theorem red_result_not_capped_witness:
  "length (resolve ''Red''
     [example_shape ''canonical-1'' 5, example_shape ''canonical-2'' 5,
      example_shape ''canonical-3'' 5, example_shape ''canonical-4'' 5,
      example_shape ''canonical-2'' 7, example_shape ''7'' 9,
      example_shape ''canonical-5'' 5, example_shape ''canonical-6'' 5]) = 6"
proof -
  let ?xs = "[example_shape ''canonical-1'' 5, example_shape ''canonical-2'' 5,
      example_shape ''canonical-3'' 5, example_shape ''canonical-4'' 5,
      example_shape ''canonical-2'' 7, example_shape ''7'' 9,
      example_shape ''canonical-5'' 5, example_shape ''canonical-6'' 5]"
  have "get_id ` set (filter is_canonical ?xs) =
      set [''canonical-1'', ''canonical-2'', ''canonical-3'', ''canonical-4'',
        ''canonical-5'', ''canonical-6'']"
    by (simp add: is_canonical_def get_id_def example_shape_def insert_commute)
  also have "card \<dots> = 6"
    by (subst distinct_card) simp_all
  finally have h: "card (get_id ` set (filter is_canonical ?xs)) = 6" .
  show ?thesis
    by (rule red_result_not_capped [OF h]) simp
qed

section \<open>A single canonical shape\<close>

text \<open>
  C10: for every route id, when the canonical shapes reduce to one record after the
  deduplication by exact id, the result is that record alone, with the route id written
  under \<^verbatim>\<open>_route_id\<close> in its attributes and otherwise as it was, whatever the other shapes
  of the input are.
\<close>

theorem single_canonical_shape:
  assumes "first_seen get_id (filter is_canonical all_shapes) = [c]"
  shows "resolve route_id all_shapes =
           [c\<lparr>attributes := Some (AList.update ''_route_id'' route_id
                                  (case attributes c of None \<Rightarrow> [] | Some a \<Rightarrow> a))\<rparr>] \<and>
         (\<exists>r. resolve route_id all_shapes = [r] \<and> stamped_from route_id c r)"
proof -
  from assms have ne: "filter is_canonical all_shapes \<noteq> []" by auto
  then have "all_shapes \<noteq> []" by auto
  with ne assms have "resolve route_id all_shapes = [stamp route_id c]"
    by (simp add: resolve_def dedup_loop_eq Let_def longest_fallback_def branch_filter_def)
  with stamped_from_stamp [of route_id c] show ?thesis
    by (simp add: stamp_record)
qed

theorem single_canonical_shape_witness:
  "resolve ''99''
     [example_shape ''x'' 40, example_shape ''canonical-A'' 3, example_shape ''y'' 35,
      example_shape ''canonical-A'' 9] =
   [\<lparr>sid = Some ''canonical-A'',
     attributes = Some [(''polyline'', ''ppp''), (''_route_id'', ''99'')]\<rparr>]"
proof -
  let ?xs = "[example_shape ''x'' 40, example_shape ''canonical-A'' 3, example_shape ''y'' 35,
      example_shape ''canonical-A'' 9]"
  have h: "first_seen get_id (filter is_canonical ?xs) = [example_shape ''canonical-A'' 3]"
    by (simp add: is_canonical_def get_id_def example_shape_def)
  from single_canonical_shape [OF h, of "''99''"] show ?thesis
    by (simp add: example_shape_def numeral_3_eq_3)
qed

section \<open>The cache key of the aggregation\<close>

text \<open>
  C8, as the code has it: two lists of route ids that are permutations of one another
  (the same ids, each as often) give the same cache key, which is \<^verbatim>\<open>"shapes_"\<close> followed
  by the ids in ascending order, joined by \<^verbatim>\<open>"_"\<close>.
\<close>

theorem cache_key_order_independent:
  assumes "mset xs = mset ys"
  shows "shapes_cache_key xs = shapes_cache_key ys \<and>
         (\<exists>zs. sorted zs \<and> mset zs = mset xs \<and>
               shapes_cache_key xs = ''shapes_'' @ join ''_'' zs)"
proof -
  have "sort xs = sort ys"
    using assms by (intro properties_for_sort) simp_all
  then have "shapes_cache_key xs = shapes_cache_key ys"
    by (simp add: shapes_cache_key_def)
  moreover have "sorted (sort xs) \<and> mset (sort xs) = mset xs \<and>
      shapes_cache_key xs = ''shapes_'' @ join ''_'' (sort xs)"
    by (simp add: shapes_cache_key_def)
  ultimately show ?thesis by blast
qed

theorem cache_key_order_independent_witness:
  "mset [''B'', ''A''] = mset [''A'', ''B''] \<and>
   shapes_cache_key [''B'', ''A''] = ''shapes_A_B'' \<and>
   shapes_cache_key [''A'', ''B''] = ''shapes_A_B''"
proof -
  have h: "mset [''B'', ''A''] = mset [''A'', ''B'']" by simp
  have k: "shapes_cache_key [''A'', ''B''] = ''shapes_A_B''" by code_simp
  from cache_key_order_independent [OF h] h k show ?thesis by simp
qed

text \<open>
  The claim read on lists with the same set of ids fails when an id is repeated: the
  route list is the caller's comma-separated parameter, split without removing
  duplicates, and every occurrence goes into the key.
\<close>

theorem cache_key_same_set_counterexample:
  "set [''A'', ''A''] = set [''A''] \<and>
   shapes_cache_key [''A'', ''A''] = ''shapes_A_A'' \<and>
   shapes_cache_key [''A''] = ''shapes_A''"
  by (simp add: shapes_cache_key_def)

section \<open>Duplicate ids\<close>

text \<open>
  C2, as the code has it: when the input holds two (or more) records with the same id,
  the result holds at most one record with that id. (It may hold none: the records can
  be dropped by the preference for canonical shapes or by the ranking.)
\<close>

theorem duplicate_id_at_most_once:
  assumes "2 \<le> count_list (map get_id all_shapes) i"
  shows "count_list (map get_id (resolve route_id all_shapes)) i \<le> 1"
  using distinct_resolve by (rule distinct_count_le_1)

theorem duplicate_id_at_most_once_witness:
  "2 \<le> count_list (map get_id [example_shape ''x'' 5, example_shape ''x'' 4]) ''x'' \<and>
   count_list (map get_id (resolve ''99'' [example_shape ''x'' 5, example_shape ''x'' 4])) ''x'' \<le> 1"
proof -
  have h: "2 \<le> count_list (map get_id [example_shape ''x'' 5, example_shape ''x'' 4]) ''x''"
    by (simp add: get_id_def example_shape_def)
  from duplicate_id_at_most_once [OF h] h show ?thesis
    by blast
qed

text \<open>
  An input with two records of id \<^verbatim>\<open>"x"\<close> beside a canonical shape: the result is the
  canonical shape alone, and no record with id \<^verbatim>\<open>"x"\<close> is returned.
\<close>

theorem duplicate_id_exactly_once_counterexample:
  "count_list (map get_id
     [example_shape ''canonical-A'' 1, example_shape ''x'' 5, example_shape ''x'' 5]) ''x'' = 2 \<and>
   count_list (map get_id (resolve ''99''
     [example_shape ''canonical-A'' 1, example_shape ''x'' 5, example_shape ''x'' 5])) ''x'' = 0"
  by code_simp

section \<open>The fallback example\<close>

text \<open>
  C1, as the code has it: for a route other than \<^verbatim>\<open>"Red"\<close> and five non-canonical records
  with distinct ids and polylines of 50, 48, 10, 9 and 8 characters, in any order, the
  result is one record: the one of 50 characters, with the route id written under
  \<^verbatim>\<open>_route_id\<close> in its attributes and otherwise as it was. The ranking keeps the records of
  50 and 48 characters, and the decision between branches and directions then keeps the
  longest alone, since the two lengths differ by 4 percent.
\<close>

theorem fallback_example:
  assumes r: "route_id \<noteq> ''Red''"
    and len: "mset (map (\<lambda>s. length (get_polyline s)) all_shapes) = mset [50, 48, 10, 9, 8]"
    and nc: "\<forall>s\<in>set all_shapes. \<not> is_canonical s"
    and d: "distinct (map get_id all_shapes)"
  shows "\<exists>s\<in>set all_shapes. length (get_polyline s) = 50 \<and>
           resolve route_id all_shapes =
             [s\<lparr>attributes := Some (AList.update ''_route_id'' route_id
                                   (case attributes s of None \<Rightarrow> [] | Some a \<Rightarrow> a))\<rparr>] \<and>
           (\<exists>r. resolve route_id all_shapes = [r] \<and> stamped_from route_id s r \<and>
                length (get_polyline r) = 50)"
proof -
  let ?len = "\<lambda>s. length (get_polyline s)"
  let ?ys = "map (\<lambda>s. (int (?len s), s)) all_shapes"
  let ?zs = "sort_desc ?ys"
  from len have lens: "set (map ?len all_shapes) = set [50, 48, 10, 9, 8]"
    by (rule mset_eq_setD)
  have ne: "get_polyline s \<noteq> []" if "s \<in> set all_shapes" for s
  proof -
    from that have "?len s \<in> set (map ?len all_shapes)" by simp
    with lens have "?len s \<in> set [50, 48, 10, 9, 8]" by simp
    then show ?thesis by auto
  qed
  then have fl: "filter (\<lambda>s. get_polyline s \<noteq> []) all_shapes = all_shapes"
    by (simp add: filter_id_conv)
  from len have "all_shapes \<noteq> []" by auto
  have "mset (map (\<lambda>x. - fst x) ?ys) = image_mset (\<lambda>n. - int n) (mset (map ?len all_shapes))"
    by (simp add: multiset.map_comp comp_def)
  also have "\<dots> = mset [- 50, - 48, - 10, - 9, - 8 :: int]"
    unfolding len by simp
  finally have "sort (map (\<lambda>x. - fst x) ?ys) = [- 50, - 48, - 10, - 9, - 8]"
    by (intro properties_for_sort) simp_all
  then have neg: "map (\<lambda>x. - fst x) ?zs = [- 50, - 48, - 10, - 9, - 8]"
    by (simp add: sort_desc_def map_sort_key)
  then obtain z1 z2 z3 z4 z5 where zs: "?zs = [z1, z2, z3, z4, z5]"
    and f: "fst z1 = 50" "fst z2 = 48"
    by (auto simp: map_eq_Cons_conv)
  have mem: "set ?zs = set ?ys"
    by (simp add: sort_desc_def)
  obtain s1 where s1: "z1 = (int (?len s1), s1)" "s1 \<in> set all_shapes"
    using mem zs by auto
  obtain s2 where s2: "z2 = (int (?len s2), s2)" "s2 \<in> set all_shapes"
    using mem zs by auto
  from f s1 s2 have l: "?len s1 = 50" "?len s2 = 48"
    by simp_all
  then have "s1 \<noteq> s2" by auto
  with d s1(2) s2(2) have ids: "get_id s1 \<noteq> get_id s2"
    by (auto simp: distinct_map inj_on_def)
  from nc have c: "filter is_canonical all_shapes = []"
    by (simp add: filter_empty_conv)
  have fb: "longest_fallback False all_shapes [] = [s1, s2]"
    using \<open>all_shapes \<noteq> []\<close> by (simp add: longest_fallback_def fl zs s1(1) s2(1))
  from nc s1(2) s2(2) have k: "dedup_id s1 = get_id s1" "dedup_id s2 = get_id s2"
    by (simp_all add: dedup_id_def is_canonical_def)
  with ids have dd: "first_seen dedup_id [s1, s2] = [s1, s2]"
    by simp
  have bf: "branch_filter False [s1, s2] = [s1]"
    by (simp add: branch_filter_def sort_desc_def l)
  from r have nr: "(route_id = ''Red'') = False"
    by simp
  have fs0: "first_seen get_id [] = []"
    by simp
  have "resolve route_id all_shapes = [stamp route_id s1]"
    unfolding resolve_unfold nr c fs0 fb dd bf using \<open>all_shapes \<noteq> []\<close> by simp
  with s1(2) l(1) stamped_from_stamp [of route_id s1] show ?thesis
    by (auto simp: stamp_record [symmetric])
qed

theorem fallback_example_witness:
  "resolve ''99''
     [example_shape ''c'' 10, example_shape ''a'' 50, example_shape ''e'' 8,
      example_shape ''b'' 48, example_shape ''d'' 9] =
   [\<lparr>sid = Some ''a'',
     attributes = Some [(''polyline'', replicate 50 CHR ''p''), (''_route_id'', ''99'')]\<rparr>]"
proof -
  let ?xs = "[example_shape ''c'' 10, example_shape ''a'' 50, example_shape ''e'' 8,
      example_shape ''b'' 48, example_shape ''d'' 9]"
  have r: "''99'' \<noteq> ''Red''" by simp
  have len: "mset (map (\<lambda>s. length (get_polyline s)) ?xs) = mset [50, 48, 10, 9, 8]"
    by (simp add: get_polyline_def example_shape_def add_mset_commute)
  have nc: "\<forall>s\<in>set ?xs. \<not> is_canonical s"
    by (simp add: is_canonical_def get_id_def example_shape_def)
  have d: "distinct (map get_id ?xs)"
    by (simp add: get_id_def example_shape_def)
  from fallback_example [OF r len nc d] obtain s where s: "s \<in> set ?xs"
    "length (get_polyline s) = 50"
    "resolve ''99'' ?xs =
       [s\<lparr>attributes := Some (AList.update ''_route_id'' ''99''
                              (case attributes s of None \<Rightarrow> [] | Some a \<Rightarrow> a))\<rparr>]"
    by blast
  from s(1,2) have "s = example_shape ''a'' 50"
    by (auto simp: get_polyline_def example_shape_def)
  with s(3) show ?thesis
    by (simp add: example_shape_def)
qed

text \<open>
  The claim's input, evaluated: the result is one record, the one with id \<^verbatim>\<open>"a"\<close> and 50
  characters, not the two records of 50 and 48 characters.
\<close>

theorem fallback_example_counterexample:
  "length (resolve ''99''
     [example_shape ''a'' 50, example_shape ''b'' 48, example_shape ''c'' 10,
      example_shape ''d'' 9, example_shape ''e'' 8]) = 1 \<and>
   map get_id (resolve ''99''
     [example_shape ''a'' 50, example_shape ''b'' 48, example_shape ''c'' 10,
      example_shape ''d'' 9, example_shape ''e'' 8]) = [''a'']"
  by code_simp

section \<open>Two canonical shapes of similar length\<close>

lemma ratio_small:
  assumes "0 < mx" and "20 * (mx - mn) < 3 * mx"
  shows "\<not> (0.15 \<le> (of_int (mx - mn) / of_int mx :: rat))"
proof -
  from assms(2) have "(of_int (20 * (mx - mn)) :: rat) < of_int (3 * mx)"
    by (simp only: of_int_less_iff)
  then have "(20 * of_int (mx - mn) :: rat) < 3 * of_int mx"
    by simp
  with assms(1) show ?thesis
    by (simp add: field_simps)
qed

text \<open>
  Two canonical shapes of a route other than \<^verbatim>\<open>"Red"\<close>, whose lengths differ by less than
  15 percent of the longer one, collapse to the longer one (the first one when the
  lengths are equal), provided the keys of the final deduplication differ.
\<close>

lemma direction_collapse:
  assumes r: "route_id \<noteq> ''Red''"
    and c: "is_canonical a" "is_canonical b"
    and d: "dedup_id a \<noteq> dedup_id b"
    and l: "la = int (length (get_polyline a))" "lb = int (length (get_polyline b))"
    and close: "20 * (max la lb - min la lb) < 3 * max la lb"
  shows "resolve route_id [a, b] = [stamp route_id (if la < lb then b else a)]"
proof -
  have "get_id a = get_id b \<Longrightarrow> dedup_id a = dedup_id b"
    by (simp add: dedup_id_def)
  with d have i: "get_id a \<noteq> get_id b"
    by blast
  with c have fs: "first_seen get_id (filter is_canonical [a, b]) = [a, b]"
    by simp
  have fb: "longest_fallback False [a, b] [a, b] = [a, b]"
    by (simp add: longest_fallback_def)
  from d have dd: "first_seen dedup_id [a, b] = [a, b]"
    by simp
  from l have nn: "0 \<le> la" "0 \<le> lb"
    by simp_all
  have bf: "branch_filter False [a, b] = [if la < lb then b else a]"
  proof (cases "la < lb")
    case True
    then have s: "sort_desc [(la, a), (lb, b)] = [(lb, b), (la, a)]"
      by (simp add: sort_desc_def)
    from True have "max la lb = lb" "min la lb = la"
      by simp_all
    with close nn have "0 < lb" "20 * (lb - la) < 3 * lb"
      by simp_all
    then have "\<not> (0.15 \<le> (of_int (lb - la) / of_int lb :: rat))"
      by (rule ratio_small)
    with True s \<open>0 < lb\<close> show ?thesis
      by (simp add: branch_filter_def l [symmetric])
  next
    case False
    then have s: "sort_desc [(la, a), (lb, b)] = [(la, a), (lb, b)]"
      by (simp add: sort_desc_def)
    from False have "max la lb = la" "min la lb = lb"
      by simp_all
    with close nn have "0 < la" "20 * (la - lb) < 3 * la"
      by simp_all
    then have "\<not> (0.15 \<le> (of_int (la - lb) / of_int la :: rat))"
      by (rule ratio_small)
    with False s \<open>0 < la\<close> show ?thesis
      by (simp add: branch_filter_def l [symmetric])
  qed
  from r have nr: "(route_id = ''Red'') = False"
    by simp
  show ?thesis
    unfolding resolve_unfold nr fs fb dd bf by simp
qed

text \<open>
  C4 at the ids \<^verbatim>\<open>"canonical-A"\<close> (9 characters of polyline) and
  \<^verbatim>\<open>"canonical-canonical-A"\<close> (10 characters): the ids differ, and differ after the
  leading \<^verbatim>\<open>"canonical-"\<close> is stripped (\<^verbatim>\<open>"A"\<close> and \<^verbatim>\<open>"canonical-A"\<close>), the lengths differ by
  10 percent. \<^verbatim>\<open>replace\<close> removes every occurrence of the marker, so both keys are \<^verbatim>\<open>"A"\<close>,
  the second record is dropped as a duplicate, and the result is the first record, which
  has the shorter polyline.
\<close>

theorem direction_collapse_failing_input:
  "drop 10 ''canonical-A'' \<noteq> drop 10 ''canonical-canonical-A'' \<and>
   dedup_id (example_shape ''canonical-A'' 9) = ''A'' \<and>
   dedup_id (example_shape ''canonical-canonical-A'' 10) = ''A'' \<and>
   resolve ''99'' [example_shape ''canonical-A'' 9, example_shape ''canonical-canonical-A'' 10] =
     [stamp ''99'' (example_shape ''canonical-A'' 9)]"
  by code_simp

section \<open>Writing and reading a JSON document\<close>

lemma update_fresh: "k \<notin> fst ` set al \<Longrightarrow> AList.update k v al = al @ [(k, v)]"
  by (induction al) auto

text \<open>
  A payload of the kind \<open>json_plain\<close> is written without error and read back as it was. For
  the members of a dictionary the statement is about any dictionary \<open>d\<close> built so far
  whose keys are not among theirs.
\<close>

lemma json_round_trip:
  "json_plain v \<longrightarrow> (\<exists>j. json_dump v = Inr j \<and> json_load j = v)"
  "json_plain_list xs \<longrightarrow> (\<exists>js. json_dump_list xs = Inr js \<and> json_load_list js = xs)"
  "json_plain_items kvs \<longrightarrow>
     (\<forall>d. distinct (map fst kvs) \<longrightarrow> fst ` set kvs \<inter> fst ` set d = {} \<longrightarrow>
        (\<exists>ms. json_dump_items kvs = Inr ms \<and> json_load_members ms d = d @ kvs))"
proof (induction v and xs and kvs rule: json_plain_json_plain_list_json_plain_items.induct)
  case (8 kvs)
  show ?case
  proof
    assume p: "json_plain (PDict kvs)"
    then have "distinct (map fst kvs)" "json_plain_items kvs"
      by simp_all
    with 8 have "\<forall>d. distinct (map fst kvs) \<longrightarrow> fst ` set kvs \<inter> fst ` set d = {} \<longrightarrow>
        (\<exists>ms. json_dump_items kvs = Inr ms \<and> json_load_members ms d = d @ kvs)"
      by blast
    then have "distinct (map fst kvs) \<longrightarrow>
        fst ` set kvs \<inter> fst ` set ([] :: (pykey \<times> pyval) list) = {} \<longrightarrow>
        (\<exists>ms. json_dump_items kvs = Inr ms \<and> json_load_members ms [] = [] @ kvs)"
      by (rule spec)
    with \<open>distinct (map fst kvs)\<close>
    obtain ms where "json_dump_items kvs = Inr ms" "json_load_members ms [] = [] @ kvs"
      by auto
    then show "\<exists>j. json_dump (PDict kvs) = Inr j \<and> json_load j = PDict kvs"
      by simp
  qed
next
  case (13 k v kvs)
  show ?case
  proof (intro impI allI)
    fix d :: "(pykey \<times> pyval) list"
    assume p: "json_plain_items ((k, v) # kvs)"
      and di: "distinct (map fst ((k, v) # kvs))"
      and dj: "fst ` set ((k, v) # kvs) \<inter> fst ` set d = {}"
    from p obtain name where k: "k = KStr name"
      by (cases k) simp_all
    from p have pv: "json_plain v" and pk: "json_plain_items kvs"
      by simp_all
    from 13(1) pv obtain j where j: "json_dump v = Inr j" "json_load j = v"
      by blast
    from dj have "k \<notin> fst ` set d"
      by auto
    then have u: "AList.update k v d = d @ [(k, v)]"
      by (rule update_fresh)
    from di dj have "distinct (map fst kvs)" "fst ` set kvs \<inter> fst ` set (d @ [(k, v)]) = {}"
      by auto
    with 13(2) pk obtain ms where ms: "json_dump_items kvs = Inr ms"
      "json_load_members ms (d @ [(k, v)]) = (d @ [(k, v)]) @ kvs"
      by blast
    from k j ms u show "\<exists>ms. json_dump_items ((k, v) # kvs) = Inr ms \<and>
        json_load_members ms d = d @ (k, v) # kvs"
      by simp
  qed
qed auto

section \<open>The cache\<close>

lemma save_total: "\<exists>b fs'. save_to_cache env io ts mtime fs k v = (Inr b, fs')"
  by (cases io)
     (auto simp: save_to_cache_def get_cache_file_path_def Let_def split: sum.splits)

lemma save_success:
  assumes "save_to_cache env io timestamp mtime fs k v = (Inr True, fs')"
  shows "mkdir_ok env \<and>
         (\<exists>doc. json_dump (PDict [(KStr ''timestamp'', PStr timestamp), (KStr ''data'', v)]) = Inr doc \<and>
            fs' = fs(k @ ''.json'' \<mapsto> \<lparr>st_mtime = mtime, content = Some doc\<rparr>))"
  using assms
  by (cases io)
     (auto simp: save_to_cache_def get_cache_file_path_def Let_def split: sum.splits if_splits)

lemma load_after_save:
  assumes "save_to_cache env io timestamp mtime fs k v = (Inr True, fs')"
    and "fromtimestamp env mtime = Inr file_time"
    and "now - file_time < timedelta_hours 168"
  shows "\<exists>doc. json_dump (PDict [(KStr ''timestamp'', PStr timestamp), (KStr ''data'', v)]) = Inr doc \<and>
           load_body env fs' now k =
             (case json_load doc of
                PDict cache_data \<Rightarrow>
                  (case map_of cache_data (KStr ''data'') of None \<Rightarrow> Inr PNone | Some v \<Rightarrow> Inr v)
              | _ \<Rightarrow> Inl AttributeError)"
proof -
  from save_success [OF assms(1)] obtain doc where m: "mkdir_ok env"
    and doc: "json_dump (PDict [(KStr ''timestamp'', PStr timestamp), (KStr ''data'', v)]) = Inr doc"
    and fs': "fs' = fs(k @ ''.json'' \<mapsto> \<lparr>st_mtime = mtime, content = Some doc\<rparr>)"
    by blast
  from m fs' assms(2,3) have "load_body env fs' now k =
             (case json_load doc of
                PDict cache_data \<Rightarrow>
                  (case map_of cache_data (KStr ''data'') of None \<Rightarrow> Inr PNone | Some v \<Rightarrow> Inr v)
              | _ \<Rightarrow> Inl AttributeError)"
    by (simp add: load_body_def get_cache_file_path_def is_cache_valid_def Let_def
        CACHE_EXPIRY_HOURS_def)
  with doc show ?thesis by blast
qed

text \<open>
  C6, as the code has it. \<^verbatim>\<open>load_from_cache\<close> never raises. It returns \<^verbatim>\<open>None\<close> exactly
  when the cache directory cannot be created, or no cache file exists for the key, or the
  modification time cannot be turned into a local datetime, or the age of the file is
  168 hours or more, or the file cannot be parsed, or the value read is not a
  dictionary, or the dictionary has no \<^verbatim>\<open>"data"\<close> entry or a null one. Otherwise it returns
  the value under \<^verbatim>\<open>"data"\<close>. The age is \<^verbatim>\<open>datetime.now()\<close> minus the modification time as a
  naive local datetime: the difference of two readings of the local calendar, which is
  the time elapsed only when the offset of the zone has not changed in between.
\<close>

theorem load_from_cache_result:
  "(\<exists>v. load_from_cache env fs now k = Inr v) \<and>
   (load_from_cache env fs now k = Inr PNone \<longleftrightarrow>
      \<not> mkdir_ok env \<or>
      fs (k @ ''.json'') = None \<or>
      (\<exists>f. fs (k @ ''.json'') = Some f \<and>
         ((\<exists>e. fromtimestamp env (st_mtime f) = Inl e) \<or>
          (\<exists>file_time. fromtimestamp env (st_mtime f) = Inr file_time \<and>
              timedelta_hours 168 \<le> now - file_time) \<or>
          content f = None \<or>
          (\<exists>doc. content f = Some doc \<and> (\<forall>d. json_load doc \<noteq> PDict d)) \<or>
          (\<exists>doc d. content f = Some doc \<and> json_load doc = PDict d \<and>
             (map_of d (KStr ''data'') = None \<or> map_of d (KStr ''data'') = Some PNone))))) \<and>
   (mkdir_ok env \<and> fs (k @ ''.json'') = Some f \<and>
    fromtimestamp env (st_mtime f) = Inr file_time \<and> now - file_time < timedelta_hours 168 \<and>
    content f = Some doc \<and> json_load doc = PDict d \<and> map_of d (KStr ''data'') = Some v \<longrightarrow>
      load_from_cache env fs now k = Inr v)"
proof (intro conjI)
  show "\<exists>v. load_from_cache env fs now k = Inr v"
    by (simp add: load_from_cache_def split: sum.splits)
  show "load_from_cache env fs now k = Inr PNone \<longleftrightarrow>
      \<not> mkdir_ok env \<or>
      fs (k @ ''.json'') = None \<or>
      (\<exists>f. fs (k @ ''.json'') = Some f \<and>
         ((\<exists>e. fromtimestamp env (st_mtime f) = Inl e) \<or>
          (\<exists>file_time. fromtimestamp env (st_mtime f) = Inr file_time \<and>
              timedelta_hours 168 \<le> now - file_time) \<or>
          content f = None \<or>
          (\<exists>doc. content f = Some doc \<and> (\<forall>d. json_load doc \<noteq> PDict d)) \<or>
          (\<exists>doc d. content f = Some doc \<and> json_load doc = PDict d \<and>
             (map_of d (KStr ''data'') = None \<or> map_of d (KStr ''data'') = Some PNone))))"
    by (auto simp: load_from_cache_def load_body_def is_cache_valid_def get_cache_file_path_def
        Let_def CACHE_EXPIRY_HOURS_def split: option.splits pyval.splits sum.splits)
  show "mkdir_ok env \<and> fs (k @ ''.json'') = Some f \<and>
    fromtimestamp env (st_mtime f) = Inr file_time \<and> now - file_time < timedelta_hours 168 \<and>
    content f = Some doc \<and> json_load doc = PDict d \<and> map_of d (KStr ''data'') = Some v \<longrightarrow>
      load_from_cache env fs now k = Inr v"
    by (simp add: load_from_cache_def load_body_def is_cache_valid_def get_cache_file_path_def
        Let_def CACHE_EXPIRY_HOURS_def)
qed

theorem load_from_cache_result_witness:
  "load_from_cache example_env
     (Map.empty(''k.json'' \<mapsto>
        \<lparr>st_mtime = 1000,
         content = Some (JObject [(''timestamp'', JStr ''t''), (''data'', JStr ''v'')])\<rparr>))
     2000000000 ''k'' = Inr (PStr ''v'')"
proof -
  let ?doc = "JObject [(''timestamp'', JStr ''t''), (''data'', JStr ''v'')]"
  let ?f = "\<lparr>st_mtime = 1000, content = Some ?doc\<rparr>"
  let ?fs = "Map.empty(''k.json'' \<mapsto> ?f)"
  have h: "mkdir_ok example_env \<and> ?fs (''k'' @ ''.json'') = Some ?f \<and>
      fromtimestamp example_env (st_mtime ?f) = Inr 1000000000 \<and>
      2000000000 - 1000000000 < timedelta_hours 168 \<and>
      content ?f = Some ?doc \<and>
      json_load ?doc = PDict [(KStr ''timestamp'', PStr ''t''), (KStr ''data'', PStr ''v'')] \<and>
      map_of [(KStr ''timestamp'', PStr ''t''), (KStr ''data'', PStr ''v'')] (KStr ''data'') =
        Some (PStr ''v'')"
    by (simp add: example_env_def timedelta_hours_def)
  from load_from_cache_result [of example_env ?fs 2000000000 "''k''" ?f 1000000000 ?doc
      "[(KStr ''timestamp'', PStr ''t''), (KStr ''data'', PStr ''v'')]" "PStr ''v''"] h
  show ?thesis
    by blast
qed

text \<open>
  In the zone UTC, a file whose age is exactly 168 hours exists, parses, and its age does
  not exceed 168 hours, yet \<^verbatim>\<open>None\<close> is returned (the test is
  \<^verbatim>\<open>age < timedelta(hours=168)\<close>). A fresh file that holds a null payload gives \<^verbatim>\<open>None\<close> as
  well.
\<close>

theorem load_from_cache_iff_counterexample:
  "load_from_cache example_env
     (Map.empty(''k.json'' \<mapsto>
        \<lparr>st_mtime = 0,
         content = Some (JObject [(''timestamp'', JStr ''t''), (''data'', JStr ''v'')])\<rparr>))
     (timedelta_hours 168) ''k'' = Inr PNone \<and>
   fromtimestamp example_env 0 = Inr 0 \<and>
   \<not> (timedelta_hours 168 < timedelta_hours 168 - 0) \<and>
   load_from_cache example_env
     (Map.empty(''k.json'' \<mapsto>
        \<lparr>st_mtime = 0,
         content = Some (JObject [(''timestamp'', JStr ''t''), (''data'', JNull)])\<rparr>))
     1 ''k'' = Inr PNone"
  by (simp add: load_from_cache_def load_body_def is_cache_valid_def get_cache_file_path_def
      timedelta_hours_def CACHE_EXPIRY_HOURS_def example_env_def)

text \<open>
  The age across a change of the clock: in a zone that sets its clock back one hour at
  the epoch time of 1000 seconds, a file written at time 0 and read 168 hours and a half
  later has a local age of 167 hours and a half, and its payload is returned.
\<close>

lemma load_from_cache_across_clock_change:
  "load_from_cache
     \<lparr>mkdir_ok = True,
      fromtimestamp = (\<lambda>t. Inr (\<lfloor>t * 1000000\<rfloor> - (if 1000 \<le> t then 3600000000 else 0)))\<rparr>
     (Map.empty(''k.json'' \<mapsto>
        \<lparr>st_mtime = 0,
         content = Some (JObject [(''timestamp'', JStr ''t''), (''data'', JStr ''v'')])\<rparr>))
     (timedelta_hours 168 + 1800000000 - 3600000000) ''k'' = Inr (PStr ''v'')"
  by (simp add: load_from_cache_def load_body_def is_cache_valid_def get_cache_file_path_def
      timedelta_hours_def CACHE_EXPIRY_HOURS_def)

text \<open>
  C7, as the code has it: for a payload made of \<^verbatim>\<open>None\<close>, booleans, integers, floats other
  than NaN, strings, lists, and dictionaries with string keys, a successful
  \<^verbatim>\<open>save_to_cache\<close> under a key, followed by a \<^verbatim>\<open>load_from_cache\<close> of the key while the age
  of the file is below 168 hours (in particular at once), returns the payload. (A NaN is
  read back as a NaN, which Python does not count equal to itself.)
\<close>

theorem cache_round_trip:
  assumes "json_plain v"
    and "save_to_cache env io timestamp mtime fs k v = (Inr True, fs')"
    and "fromtimestamp env mtime = Inr file_time"
    and "now - file_time < timedelta_hours 168"
  shows "load_from_cache env fs' now k = Inr v"
proof -
  let ?d = "PDict [(KStr ''timestamp'', PStr timestamp), (KStr ''data'', v)]"
  from assms(1) have "json_plain ?d"
    by simp
  with json_round_trip(1) [of ?d] obtain j where j: "json_dump ?d = Inr j" "json_load j = ?d"
    by blast
  from load_after_save [OF assms(2-4)] j show ?thesis
    by (simp add: load_from_cache_def)
qed

theorem cache_round_trip_witness:
  "load_from_cache example_env
     (snd (save_to_cache example_env Written ''t'' 5 Map.empty ''k''
        (PDict [(KStr ''a'', PList [PStr ''x'', PInt 1, PNone]), (KStr ''b'', PFloat (Finite ''1.5''))])))
     5000000 ''k'' =
   Inr (PDict [(KStr ''a'', PList [PStr ''x'', PInt 1, PNone]), (KStr ''b'', PFloat (Finite ''1.5''))])"
proof -
  let ?v = "PDict [(KStr ''a'', PList [PStr ''x'', PInt 1, PNone]), (KStr ''b'', PFloat (Finite ''1.5''))]"
  have p: "json_plain ?v"
    by simp
  obtain fs' where s: "save_to_cache example_env Written ''t'' 5 Map.empty ''k'' ?v = (Inr True, fs')"
    by (simp add: save_to_cache_def get_cache_file_path_def example_env_def)
  have t: "fromtimestamp example_env 5 = Inr 5000000"
    by (simp add: example_env_def)
  have a: "(5000000 :: int) - 5000000 < timedelta_hours 168"
    by (simp add: timedelta_hours_def)
  from cache_round_trip [OF p s t a] s show ?thesis
    by simp
qed

text \<open>
  A tuple is saved with success and loaded as a list, and a dictionary with the integer
  key 1 is saved with success and loaded with the string key \<^verbatim>\<open>"1"\<close>: the value loaded
  is not the value saved.
\<close>

theorem cache_round_trip_counterexample:
  "fst (save_to_cache example_env Written ''t'' 0 Map.empty ''k'' (PTuple [PInt 1, PInt 2])) =
     Inr True \<and>
   load_from_cache example_env
     (snd (save_to_cache example_env Written ''t'' 0 Map.empty ''k'' (PTuple [PInt 1, PInt 2])))
     0 ''k'' = Inr (PList [PInt 1, PInt 2]) \<and>
   PList [PInt 1, PInt 2] \<noteq> PTuple [PInt 1, PInt 2] \<and>
   fst (save_to_cache example_env Written ''t'' 0 Map.empty ''k'' (PDict [(KInt 1, PStr ''a'')])) =
     Inr True \<and>
   load_from_cache example_env
     (snd (save_to_cache example_env Written ''t'' 0 Map.empty ''k'' (PDict [(KInt 1, PStr ''a'')])))
     0 ''k'' = Inr (PDict [(KStr ''1'', PStr ''a'')])"
  by (simp add: save_to_cache_def load_from_cache_def load_body_def is_cache_valid_def
      get_cache_file_path_def example_env_def timedelta_hours_def CACHE_EXPIRY_HOURS_def
      str_int_def)

section \<open>Partial failure of the aggregation\<close>

lemma data_add_shapes:
  "data (add_shapes route_id ss acc) = data acc @ map (stamp route_id) ss"
  by (induction ss arbitrary: acc) simp_all

lemma values_update: "snd ` set (AList.update k v al) \<subseteq> insert v (snd ` set al)"
  by (induction al) auto

lemma routes_add_shapes:
  "snd ` set (shape_to_route (add_shapes route_id ss acc)) \<subseteq>
     insert route_id (snd ` set (shape_to_route acc))"
proof (induction ss arbitrary: acc)
  case Nil
  show ?case by auto
next
  case (Cons s ss)
  let ?acc = "\<lparr>data = data acc @ [stamp route_id s],
        shape_to_route = AList.update (sid s) route_id (shape_to_route acc)\<rparr>"
  have "snd ` set (shape_to_route (add_shapes route_id ss ?acc)) \<subseteq>
      insert route_id (snd ` set (shape_to_route ?acc))"
    by (rule Cons.IH)
  also have "\<dots> \<subseteq> insert route_id (snd ` set (shape_to_route acc))"
    using values_update [of "sid s" route_id "shape_to_route acc"] by auto
  finally show ?case by simp
qed

lemma data_process_results:
  "data (process_results xs acc) = data acc @ concat (map contribution xs)"
  by (induction xs acc rule: process_results.induct)
     (simp_all add: contribution_def data_add_shapes)

lemma routes_process_results:
  "snd ` set (shape_to_route (process_results xs acc)) \<subseteq>
     snd ` set (shape_to_route acc) \<union> {r. \<exists>ss. (r, Inr ss) \<in> set xs}"
proof (induction xs acc rule: process_results.induct)
  case (1 acc)
  show ?case by simp
next
  case (2 route_id e rest acc)
  then show ?case by auto
next
  case (3 route_id filtered_shapes rest acc)
  let ?acc = "add_shapes route_id filtered_shapes acc"
  have a: "snd ` set (shape_to_route (process_results rest ?acc)) \<subseteq>
      snd ` set (shape_to_route ?acc) \<union> {r. \<exists>ss. (r, Inr ss) \<in> set rest}"
    by (rule 3)
  have b: "snd ` set (shape_to_route ?acc) \<subseteq> insert route_id (snd ` set (shape_to_route acc))"
    by (rule routes_add_shapes)
  have c: "{r. \<exists>ss. (r, Inr ss) \<in> set ((route_id, Inr filtered_shapes) # rest)} =
      insert route_id {r. \<exists>ss. (r, Inr ss) \<in> set rest}"
    by auto
  have "snd ` set (shape_to_route (process_results rest ?acc)) \<subseteq>
      snd ` set (shape_to_route acc) \<union> insert route_id {r. \<exists>ss. (r, Inr ss) \<in> set rest}"
    using a b by blast
  then show ?case
    by (simp only: c process_results.simps)
qed

lemma stamp_resolve: "map (stamp route_id) (resolve route_id xs) = resolve route_id xs"
  unfolding resolve_unfold by simp

lemma contributions:
  assumes "request c = Inl e"
    and "\<forall>r\<in>set rs. r \<noteq> c \<longrightarrow> request r = Inr (raw r)"
  shows "concat (map contribution (zip rs (map (get_shapes_for_route request) rs))) =
         concat (map (\<lambda>r. resolve r (raw r)) (filter (\<lambda>r. r \<noteq> c) rs))"
  using assms(2)
proof (induction rs)
  case Nil
  show ?case by simp
next
  case (Cons r rs)
  show ?case
  proof (cases "r = c")
    case True
    with Cons assms(1) show ?thesis
      by (simp add: contribution_def get_shapes_for_route_def)
  next
    case False
    with Cons.prems have "request r = Inr (raw r)" by simp
    with False Cons show ?thesis
      by (simp add: contribution_def get_shapes_for_route_def stamp_resolve)
  qed
qed

text \<open>
  C5: on a cache miss (the only case in which the tasks run), when the request of route
  \<open>c\<close> raises and the request of every other listed route returns its shapes \<open>raw r\<close>, the
  aggregation returns a result, not an exception; its \<^verbatim>\<open>data\<close> are the resolved shapes of
  the other routes, in the order of the list, and no shape is mapped to \<open>c\<close>. For the list
  of \<^verbatim>\<open>"A"\<close>, \<^verbatim>\<open>"B"\<close> and \<^verbatim>\<open>"C"\<close>, in any order, with \<open>c\<close> \<^verbatim>\<open>"C"\<close>: the shapes of \<^verbatim>\<open>"A"\<close> and
  \<^verbatim>\<open>"B"\<close> only.
\<close>

theorem partial_failure_isolation:
  assumes miss: "load_from_cache env fs now (shapes_cache_key route_ids) = Inr PNone"
    and fail: "request c = Inl e"
    and ok: "\<forall>r\<in>set route_ids. r \<noteq> c \<longrightarrow> request r = Inr (raw r)"
  shows "\<exists>res fs'.
           get_all_shapes_for_routes request env io timestamp now mtime fs route_ids =
             (Inr (Computed res), fs') \<and>
           data res = concat (map (\<lambda>r. resolve r (raw r)) (filter (\<lambda>r. r \<noteq> c) route_ids)) \<and>
           c \<notin> snd ` set (shape_to_route res)"
proof (cases "route_ids = []")
  case True
  then show ?thesis
    by (simp add: get_all_shapes_for_routes_def)
next
  case False
  let ?tasks = "zip route_ids (map (get_shapes_for_route request) route_ids)"
  let ?res = "process_results ?tasks \<lparr>data = [], shape_to_route = []\<rparr>"
  obtain b fs' where s:
    "save_to_cache env io timestamp mtime fs (shapes_cache_key route_ids) (aggregate_value ?res) =
       (Inr b, fs')"
    using save_total by blast
  from False miss s have r:
    "get_all_shapes_for_routes request env io timestamp now mtime fs route_ids =
       (Inr (Computed ?res), fs')"
    by (simp add: get_all_shapes_for_routes_def Let_def)
  have d: "data ?res = concat (map (\<lambda>r. resolve r (raw r)) (filter (\<lambda>r. r \<noteq> c) route_ids))"
    using contributions [OF fail ok] by (simp add: data_process_results)
  have "(c, Inr ss) \<notin> set ?tasks" for ss
  proof
    assume "(c, Inr ss) \<in> set ?tasks"
    then have "get_shapes_for_route request c = Inr ss"
      by (auto simp: zip_map2 in_set_zip)
    with fail show False
      by (simp add: get_shapes_for_route_def)
  qed
  with routes_process_results [of ?tasks "\<lparr>data = [], shape_to_route = []\<rparr>"]
  have n: "c \<notin> snd ` set (shape_to_route ?res)"
    by auto
  from r d n show ?thesis by blast
qed

theorem partial_failure_isolation_witness:
  "\<exists>res fs'.
     get_all_shapes_for_routes
       (\<lambda>r. if r = ''C'' then Inl TimeoutError else Inr [example_shape (''canonical-'' @ r) 4])
       example_env Written ''t'' 0 1 Map.empty [''A'', ''B'', ''C''] = (Inr (Computed res), fs') \<and>
     data res = [stamp ''A'' (example_shape ''canonical-A'' 4),
                 stamp ''B'' (example_shape ''canonical-B'' 4)]"
proof -
  let ?request = "\<lambda>r. if r = ''C'' then Inl TimeoutError
                       else Inr [example_shape (''canonical-'' @ r) 4]"
  let ?raw = "\<lambda>r. [example_shape (''canonical-'' @ r) 4]"
  have miss: "load_from_cache example_env Map.empty 0 (shapes_cache_key [''A'', ''B'', ''C'']) =
      Inr PNone"
    by (simp add: load_from_cache_def load_body_def is_cache_valid_def get_cache_file_path_def
        example_env_def)
  have fail: "?request ''C'' = Inl TimeoutError"
    by simp
  have ok: "\<forall>r\<in>set [''A'', ''B'', ''C'']. r \<noteq> ''C'' \<longrightarrow> ?request r = Inr (?raw r)"
    by simp
  have a: "resolve ''A'' [example_shape ''canonical-A'' 4] = [stamp ''A'' (example_shape ''canonical-A'' 4)]"
    by code_simp
  have b: "resolve ''B'' [example_shape ''canonical-B'' 4] = [stamp ''B'' (example_shape ''canonical-B'' 4)]"
    by code_simp
  from partial_failure_isolation [OF miss fail ok, of Written "''t''" 1] a b
  have "\<exists>res fs'.
     get_all_shapes_for_routes ?request example_env Written ''t'' 0 1 Map.empty [''A'', ''B'', ''C''] =
       (Inr (Computed res), fs') \<and>
     data res = [stamp ''A'' (example_shape ''canonical-A'' 4),
                 stamp ''B'' (example_shape ''canonical-B'' 4)] \<and>
     ''C'' \<notin> snd ` set (shape_to_route res)"
    by simp
  then show ?thesis
    by blast
qed

end
